theory Spec2Isabelle
  imports Main "HOL-Library.Sublist"
begin

section \<open>Python strings\<close>

text \<open>
  The plugin works on Python 3 \<open>str\<close> values.  They are modelled as \<^typ>\<open>string\<close>, one
  \<^typ>\<open>char\<close> per code point, which covers the code points 0 to 255.  On these code points
  \<open>str.lower\<close> maps one character to one character, so indices computed on the lowered
  string are indices of the original.
\<close>

datatype error = IndexError | KeyError | ReError | FormatError

text \<open>\<open>str.lower\<close>: the upper-case letters of the range are A to Z and the accented
  capitals 0xC0 to 0xDE without the multiplication sign 0xD7; each is 32 below its
  lower-case letter.\<close>

definition lower_char :: "char \<Rightarrow> char" where
  "lower_char c =
     (let n = (of_char c :: nat)
      in if (65 \<le> n \<and> n \<le> 90) \<or> (192 \<le> n \<and> n \<le> 222 \<and> n \<noteq> 215)
         then char_of (n + 32) else c)"

definition lower :: "string \<Rightarrow> string" where
  "lower s = map lower_char s"

text \<open>\<open>str.strip()\<close> without argument removes leading and trailing white space; the white
  space of the range is tab to carriage return, the separators 0x1C to 0x1F, the space,
  0x85 and the no-break space 0xA0.\<close>

definition is_space :: "char \<Rightarrow> bool" where
  "is_space c =
     (let n = (of_char c :: nat)
      in (9 \<le> n \<and> n \<le> 13) \<or> (28 \<le> n \<and> n \<le> 32) \<or> n = 133 \<or> n = 160)"

definition lstrip :: "string \<Rightarrow> string" where
  "lstrip s = dropWhile is_space s"

definition rstrip :: "string \<Rightarrow> string" where
  "rstrip s = rev (dropWhile is_space (rev s))"

definition strip :: "string \<Rightarrow> string" where
  "strip s = rstrip (lstrip s)"

text \<open>\<open>s.find(sub)\<close>: the lowest index at which \<open>sub\<close> occurs in \<open>s\<close>, or -1.\<close>

fun find_from :: "string \<Rightarrow> string \<Rightarrow> nat \<Rightarrow> int" where
  "find_from sub [] k = (if sub = [] then int k else - 1)"
| "find_from sub (c # cs) k =
     (if prefix sub (c # cs) then int k else find_from sub cs (Suc k))"

definition find_str :: "string \<Rightarrow> string \<Rightarrow> int" where
  "find_str s sub = find_from sub s 0"

text \<open>\<open>value[-1]\<close> raises IndexError on the empty string.\<close>

definition last_char :: "string \<Rightarrow> error + char" where
  "last_char s = (if s = [] then Inl IndexError else Inr (last s))"

text \<open>\<open>value[0]\<close> raises IndexError on the empty string.\<close>

definition first_char :: "string \<Rightarrow> error + char" where
  "first_char s = (case s of [] \<Rightarrow> Inl IndexError | c # _ \<Rightarrow> Inr c)"

section \<open>The canonicalizers\<close>

text \<open>The statement that occurs twice in \<open>canonicalize_author\<close>:
  \<^verbatim>\<open>if value[-1] == ".": value = value[:len(value)-1]\<close>\<close>

definition strip_trailing_period :: "string \<Rightarrow> error + string" where
  "strip_trailing_period v =
     (case last_char v of
        Inl e \<Rightarrow> Inl e
      | Inr c \<Rightarrow> Inr (if c = CHR ''.'' then take (length v - 1) v else v))"

text \<open>\<^verbatim>\<open>i = value.lower().find(et_all)\<close>; when the marker is found it is cut out and kept
  for later, otherwise \<open>et_all\<close> becomes the empty string.  The result is the pair of the new
  \<open>value\<close> and the new \<open>et_all\<close>.\<close>

definition strip_et_all :: "string \<Rightarrow> string \<times> string" where
  "strip_et_all v =
     (let et_all = ''et all'';
          i = find_str (lower v) et_all
      in if i > - 1
         then (take (nat i) v @ drop (nat i + length et_all) v, et_all)
         else (v, []))"

text \<open>"first last" becomes "last, first" iff there is no comma and the first space is not
  at index 0.\<close>

definition first_last :: "string \<Rightarrow> string" where
  "first_last v =
     (let i = find_str v '','' in
      if i = - 1 then
        (let i = find_str v '' '' in
         if i > 0 then
           (let first = strip (take (nat i) v);
                last = strip (drop (nat i) v)
            in last @ '', '' @ first)
         else v)
      else v)"

definition move_et_all :: "string \<Rightarrow> string \<Rightarrow> string" where
  "move_et_all v et_all = (if et_all \<noteq> [] then strip v @ '' '' @ et_all else v)"

definition canonicalize_author :: "string \<Rightarrow> error + string" where
  "canonicalize_author v =
     (if v = [] then Inr []
      else
        case strip_trailing_period v of
          Inl e \<Rightarrow> Inl e
        | Inr v1 \<Rightarrow>
            (case strip_et_all v1 of
               (v2, et_all) \<Rightarrow> strip_trailing_period (move_et_all (first_last v2) et_all)))"

text \<open>\<open>canonicalize_title\<close>: \<open>value[0]\<close>, \<open>value[1:]\<close>, \<open>value[-1]\<close> and \<open>value[:-1]\<close>.\<close>

definition canonicalize_title :: "string \<Rightarrow> error + string" where
  "canonicalize_title v =
     (if v = [] then Inr []
      else
        case first_char v of
          Inl e \<Rightarrow> Inl e
        | Inr c \<Rightarrow>
            (let v1 = (if c = CHR 0x22 then drop 1 v else v) in
             case last_char v1 of
               Inl e \<Rightarrow> Inl e
             | Inr d \<Rightarrow> Inr (if d = CHR 0x22 then take (length v1 - 1) v1 else v1)))"

section \<open>The replacement template of \<open>re.sub\<close>\<close>

text \<open>
  \<open>re.sub(pattern, repl, string)\<close> reads a \<open>repl\<close> that contains a backslash as a template
  (\<open>parse_template\<close> of the \<open>re\<close> module) before it looks for a match.  The tokenizer
  reads one token ahead, a token being one character or a backslash with the character
  after it; a backslash that ends the template makes the read-ahead fail.  The pattern of
  this plugin has no group, so the only group reference that is accepted is group 0, the
  whole match.  Group numbers are written in ASCII decimal digits, as CPython 3.12
  requires; CPython 3.11 still reads other spellings that \<open>int\<close> accepts and warns that
  they are deprecated.  A backslash before an ASCII letter that is no escape is an error,
  as it is since Python 3.7.  The escapes that the statements below evaluate (a line
  feed, a group number, group 0 by name) behave alike in every Python 3.
\<close>

datatype part = Literal char | Group

definition is_digit :: "char \<Rightarrow> bool" where
  "is_digit c = (let n = (of_char c :: nat) in 48 \<le> n \<and> n \<le> 57)"

definition is_octdigit :: "char \<Rightarrow> bool" where
  "is_octdigit c = (let n = (of_char c :: nat) in 48 \<le> n \<and> n \<le> 55)"

definition digit_val :: "char \<Rightarrow> nat" where
  "digit_val c = of_char c - 48"

definition is_ascii_letter :: "char \<Rightarrow> bool" where
  "is_ascii_letter c =
     (let n = (of_char c :: nat) in (65 \<le> n \<and> n \<le> 90) \<or> (97 \<le> n \<and> n \<le> 122))"

text \<open>\<open>str.isidentifier\<close> on the code points 0 to 255.\<close>

definition is_id_start :: "char \<Rightarrow> bool" where
  "is_id_start c =
     (let n = (of_char c :: nat)
      in is_ascii_letter c \<or> n = 95 \<or> n = 170 \<or> n = 181 \<or> n = 186
         \<or> (192 \<le> n \<and> n \<le> 214) \<or> (216 \<le> n \<and> n \<le> 246) \<or> 248 \<le> n)"

definition is_id_continue :: "char \<Rightarrow> bool" where
  "is_id_continue c = (is_id_start c \<or> is_digit c \<or> of_char c = (183 :: nat))"

definition isidentifier :: "string \<Rightarrow> bool" where
  "isidentifier s =
     (case s of [] \<Rightarrow> False | c # cs \<Rightarrow> is_id_start c \<and> list_all is_id_continue cs)"

text \<open>The table \<open>ESCAPES\<close>.\<close>

definition ESCAPES :: "char \<Rightarrow> char option" where
  "ESCAPES c =
     (if c = CHR ''a'' then Some (CHR 0x07)
      else if c = CHR ''b'' then Some (CHR 0x08)
      else if c = CHR ''f'' then Some (CHR 0x0C)
      else if c = CHR ''n'' then Some (CHR 0x0A)
      else if c = CHR ''r'' then Some (CHR 0x0D)
      else if c = CHR ''t'' then Some (CHR 0x09)
      else if c = CHR ''v'' then Some (CHR 0x0B)
      else if c = CHR 0x5C then Some (CHR 0x5C)
      else None)"

definition ok_map :: "('a \<Rightarrow> 'b) \<Rightarrow> error + 'a \<Rightarrow> error + 'b" where
  "ok_map f r = (case r of Inl e \<Rightarrow> Inl e | Inr x \<Rightarrow> Inr (f x))"

text \<open>\<open>Tokenizer.getuntil(">")\<close>, on the characters that follow \<open>\g<\<close>: the name read so
  far is \<open>result\<close>.  Each token taken makes the tokenizer read the next one, which fails
  on a lone final backslash.  The result is the name and the rest of the template.\<close>

fun getuntil :: "string \<Rightarrow> string \<Rightarrow> error + (string \<times> string)" where
  "getuntil [] result = Inl ReError"
| "getuntil (c # r) result =
     (if c = CHR 0x5C then
        (case r of
           [] \<Rightarrow> Inl ReError
         | d # r1 \<Rightarrow>
             if r1 = [CHR 0x5C] then Inl ReError else getuntil r1 (result @ [c, d]))
      else if r = [CHR 0x5C] then Inl ReError
      else if c = CHR ''>'' then (if result = [] then Inl ReError else Inr (result, r))
      else getuntil r (result @ [c]))"

text \<open>The index of the group that \<open>\g<name>\<close> names: a name that is an identifier is
  looked up among the named groups of the pattern, of which there are none (IndexError,
  "unknown group name"); a number must not exceed the number of groups, which is 0.\<close>

definition group_index :: "string \<Rightarrow> error + nat" where
  "group_index name =
     (if name \<noteq> [] \<and> list_all is_digit name then
        (if list_all (\<lambda>c. c = CHR ''0'') name then Inr 0 else Inl ReError)
      else if isidentifier name then Inl IndexError
      else Inl ReError)"

lemma getuntil_shorter:
  "getuntil s acc = Inr (name, rest) \<Longrightarrow> length rest < length s"
proof (induction s acc rule: getuntil.induct)
  case (1 result)
  then show ?case by simp
next
  case (2 c r result)
  then show ?case
    by (auto split: if_splits list.splits)
qed

function (sequential) parse_template :: "string \<Rightarrow> error + part list" where
  "parse_template [] = Inr []"
| "parse_template [c] = (if c = CHR 0x5C then Inl ReError else Inr [Literal c])"
| "parse_template (c # d # r) =
     (if c \<noteq> CHR 0x5C then ok_map (Cons (Literal c)) (parse_template (d # r))
      else if r = [CHR 0x5C] then Inl ReError
      else if d = CHR ''g'' then
        (case r of
           [] \<Rightarrow> Inl ReError
         | l # r1 \<Rightarrow>
             if l \<noteq> CHR ''<'' \<or> r1 = [CHR 0x5C] then Inl ReError
             else
               (case getuntil r1 [] of
                  Inl e \<Rightarrow> Inl e
                | Inr (name, r2) \<Rightarrow>
                    (case group_index name of
                       Inl e \<Rightarrow> Inl e
                     | Inr _ \<Rightarrow> ok_map (Cons Group) (parse_template r2))))
      else if d = CHR ''0'' then
        (case r of
           [] \<Rightarrow> Inr [Literal (CHR 0x00)]
         | d1 # r1 \<Rightarrow>
             if \<not> is_octdigit d1 then ok_map (Cons (Literal (CHR 0x00))) (parse_template r)
             else if r1 = [CHR 0x5C] then Inl ReError
             else
               (case r1 of
                  [] \<Rightarrow> Inr [Literal (char_of (digit_val d1))]
                | d2 # r2 \<Rightarrow>
                    if \<not> is_octdigit d2
                    then ok_map (Cons (Literal (char_of (digit_val d1)))) (parse_template r1)
                    else if r2 = [CHR 0x5C] then Inl ReError
                    else ok_map (Cons (Literal (char_of (8 * digit_val d1 + digit_val d2))))
                           (parse_template r2)))
      else if is_digit d then
        (case r of
           d1 # d2 # r2 \<Rightarrow>
             if is_digit d1 \<and> is_octdigit d \<and> is_octdigit d1 \<and> is_octdigit d2
                \<and> r2 \<noteq> [CHR 0x5C]
                \<and> 64 * digit_val d + 8 * digit_val d1 + digit_val d2 \<le> 255
             then ok_map
                    (Cons (Literal (char_of (64 * digit_val d + 8 * digit_val d1 + digit_val d2))))
                    (parse_template r2)
             else Inl ReError
         | _ \<Rightarrow> Inl ReError)
      else
        (case ESCAPES d of
           Some x \<Rightarrow> ok_map (Cons (Literal x)) (parse_template r)
         | None \<Rightarrow>
             if is_ascii_letter d then Inl ReError
             else ok_map (\<lambda>ps. Literal c # Literal d # ps) (parse_template r)))"
  by pat_completeness auto
termination
  by (relation "measure length") (auto dest: getuntil_shorter)

text \<open>\<open>expand_template\<close>: the literals as they are, group 0 as the text of the match.\<close>

fun expand_template :: "part list \<Rightarrow> string \<Rightarrow> string" where
  "expand_template [] m = []"
| "expand_template (Literal c # ps) m = c # expand_template ps m"
| "expand_template (Group # ps) m = m @ expand_template ps m"

text \<open>The search-and-replace loop of \<open>re.sub\<close> for a pattern made of ordinary characters
  only, which matches exactly its own text: the matches are taken from left to right
  and do not overlap, and the text between them is copied.\<close>

function sub_loop :: "string \<Rightarrow> string \<Rightarrow> string \<Rightarrow> string" where
  "sub_loop p r [] = []"
| "sub_loop p r (c # cs) =
     (if p \<noteq> [] \<and> prefix p (c # cs)
      then r @ sub_loop p r (drop (length p) (c # cs))
      else c # sub_loop p r cs)"
  by pat_completeness auto
termination
  by (relation "measure (\<lambda>(p, r, s). length s)") auto

definition re_sub :: "string \<Rightarrow> string \<Rightarrow> string \<Rightarrow> error + string" where
  "re_sub pattern repl s =
     (if CHR 0x5C \<in> set repl then
        (case parse_template repl of
           Inl e \<Rightarrow> Inl e
         | Inr ps \<Rightarrow> Inr (sub_loop pattern (expand_template ps pattern) s))
      else Inr (sub_loop pattern repl s))"

section \<open>The template and its variables\<close>

definition TEMPLATE :: string where
  "TEMPLATE = ''<author> <title> <pubdate> <ref>''"

text \<open>The named tuple \<open>Variable\<close>; its field \<open>filter\<close> is \<open>None\<close> or a function.\<close>

record Variable =
  caption :: string
  template :: string
  filter_fn :: "(string \<Rightarrow> error + string) option"

definition VARS :: "string \<rightharpoonup> Variable" where
  "VARS =
     [''author'' \<mapsto>
        \<lparr>caption = ''Author (Last, First)'', template = ''%s.'',
         filter_fn = Some canonicalize_author\<rparr>,
      ''title'' \<mapsto>
        \<lparr>caption = ''Title'', template = [CHR 0x22] @ ''%s'' @ [CHR 0x22],
         filter_fn = Some canonicalize_title\<rparr>,
      ''pubdate'' \<mapsto>
        \<lparr>caption = ''Publication Date (DD MMM YYYY)'', template = ''%s.'',
         filter_fn = None\<rparr>,
      ''ref'' \<mapsto>
        \<lparr>caption = ''Reference'', template = ''<<%s>>'', filter_fn = None\<rparr>]"

text \<open>\<open>template % text\<close> with a string as the only argument: \<open>%s\<close> takes the argument,
  \<open>%%\<close> is a per cent sign.  The flag says whether the argument has been taken; it must
  be taken exactly once.  The templates of \<open>VARS\<close> use no other conversion, and this
  function reports any other as FormatError.\<close>

fun percent_from :: "string \<Rightarrow> string \<Rightarrow> bool \<Rightarrow> error + string" where
  "percent_from [] arg used = (if used then Inr [] else Inl FormatError)"
| "percent_from (c # t) arg used =
     (if c \<noteq> CHR ''%'' then ok_map (Cons c) (percent_from t arg used)
      else
        (case t of
           [] \<Rightarrow> Inl FormatError
         | d # t1 \<Rightarrow>
             if d = CHR ''s'' then
               (if used then Inl FormatError
                else ok_map (append arg) (percent_from t1 arg True))
             else if d = CHR ''%'' then ok_map (Cons d) (percent_from t1 arg used)
             else Inl FormatError))"

definition percent :: "string \<Rightarrow> string \<Rightarrow> error + string" where
  "percent t arg = percent_from t arg False"

section \<open>The substitution step\<close>

text \<open>\<^verbatim>\<open>re.findall("<(author|title|pubdate|ref)>", entry)\<close>: the names of the
  placeholders that occur in the entry, from left to right.  At each position the
  alternatives are tried in the order in which the pattern lists them.\<close>

definition match_var :: "string \<Rightarrow> string option" where
  "match_var s =
     List.find (\<lambda>n. prefix (CHR ''<'' # n @ ''>'') s) [''author'', ''title'', ''pubdate'', ''ref'']"

function findall_vars :: "string \<Rightarrow> string list" where
  "findall_vars [] = []"
| "findall_vars (c # cs) =
     (case match_var (c # cs) of
        Some n \<Rightarrow> n # findall_vars (drop (length n + 2) (c # cs))
      | None \<Rightarrow> findall_vars cs)"
  by pat_completeness auto
termination
  by (relation "measure length") auto

text \<open>What the command asks of the editor at the end of a step: to show the input panel
  with the caption of the next variable (the completion callback is the step itself with
  the entry and that variable), or to insert the finished entry.\<close>

datatype action = ShowInputPanel string string string | Insert string

text \<open>Lines 154 to 158: the filter of the variable, applied to a non-empty text, and the
  wrapping of a text that is still non-empty.  \<open>VARS[var]\<close> raises KeyError for a name
  that is not a key.\<close>

definition wrap :: "string \<Rightarrow> string \<Rightarrow> error + string" where
  "wrap var text =
     (case VARS var of
        None \<Rightarrow> Inl KeyError
      | Some v \<Rightarrow>
          (case (if text \<noteq> [] then
                   (case filter_fn v of Some f \<Rightarrow> f text | None \<Rightarrow> Inr text)
                 else Inr text) of
             Inl e \<Rightarrow> Inl e
           | Inr text1 \<Rightarrow> if text1 \<noteq> [] then percent (template v) text1 else Inr text1))"

text \<open>Lines 159 and 160: \<^verbatim>\<open>entry = re.sub("<%s>" % var, text, entry)\<close> and
  \<^verbatim>\<open>entry = entry.strip()\<close>.  The pattern is made of ordinary characters for each key of
  \<open>VARS\<close>, and no other name arrives here.\<close>

definition substitute :: "string \<Rightarrow> string \<Rightarrow> string \<Rightarrow> error + string" where
  "substitute entry var text =
     (case wrap var text of
        Inl e \<Rightarrow> Inl e
      | Inr text2 \<Rightarrow> ok_map strip (re_sub (CHR ''<'' # var @ ''>'') text2 entry))"

text \<open>The method \<open>get_next_input_or_insert\<close>: a missing text is the empty string; when a
  variable is given it is substituted; then the first placeholder that is left decides
  between the input panel and the insertion of the entry.\<close>

definition get_next_input_or_insert ::
  "string \<Rightarrow> string option \<Rightarrow> string option \<Rightarrow> error + action" where
  "get_next_input_or_insert entry var text =
     (let text = (case text of None \<Rightarrow> [] | Some t \<Rightarrow> t) in
      case (case var of None \<Rightarrow> Inr entry | Some n \<Rightarrow> substitute entry n text) of
        Inl e \<Rightarrow> Inl e
      | Inr entry1 \<Rightarrow>
          (let vars = findall_vars entry1 in
           if length vars > 0 then
             (case VARS (hd vars) of
                None \<Rightarrow> Inl KeyError
              | Some v \<Rightarrow> Inr (ShowInputPanel (caption v) entry1 (hd vars)))
           else Inr (Insert entry1)))"

text \<open>\<open>run\<close>: the selected text, when there is one, is the value of \<open>ref\<close>.\<close>

definition run :: "string \<Rightarrow> error + action" where
  "run sel =
     (if length sel > 0 then get_next_input_or_insert TEMPLATE (Some ''ref'') (Some sel)
      else get_next_input_or_insert TEMPLATE None None)"

text \<open>The entry that an action carries.\<close>

fun entry_of :: "action \<Rightarrow> string" where
  "entry_of (ShowInputPanel cap entry var) = entry"
| "entry_of (Insert entry) = entry"

text \<open>The editor calls the completion callback of the input panel with the text that the
  user typed: the step again, with the entry and the variable of the panel.  An action
  without a panel has no callback.\<close>

fun on_done :: "error + action \<Rightarrow> string \<Rightarrow> error + action" where
  "on_done (Inr (ShowInputPanel cap entry var)) text =
     get_next_input_or_insert entry (Some var) (Some text)"
| "on_done r text = r"

section \<open>Notions used in the statements\<close>

text \<open>An entry in which every \<open><\<close> begins one of the four placeholders, as in the raw
  template.\<close>

fun wf_entry :: "string \<Rightarrow> bool" where
  "wf_entry [] = True"
| "wf_entry (c # cs) = ((c = CHR ''<'' \<longrightarrow> match_var (c # cs) \<noteq> None) \<and> wf_entry cs)"

text \<open>The title canonicalizer in the words of the specification: a leading double quote is
  removed if there is one, and then a trailing double quote of the string that is left is
  removed if there is one.\<close>

definition title_spec :: "string \<Rightarrow> string" where
  "title_spec v =
     (let v1 = (if v \<noteq> [] \<and> hd v = CHR 0x22 then tl v else v)
      in if v1 \<noteq> [] \<and> last v1 = CHR 0x22 then butlast v1 else v1)"

section \<open>Facts about the string operations\<close>

lemma find_from_none: "find_from sub s k = - 1 \<longleftrightarrow> \<not> sublist sub s"
  by (induction s arbitrary: k) (auto simp: sublist_Cons_right)

lemma find_str_none: "find_str s sub = - 1 \<longleftrightarrow> \<not> sublist sub s"
  by (simp add: find_str_def find_from_none)

lemma find_from_lower: "find_from sub s k = - 1 \<or> int k \<le> find_from sub s k"
proof (induction s arbitrary: k)
  case Nil
  then show ?case by simp
next
  case (Cons c s)
  from Cons[of "Suc k"] show ?case by auto
qed

lemma find_str_found: "find_str s sub > - 1 \<longleftrightarrow> sublist sub s"
  using find_from_lower[of sub s 0] find_str_none[of s sub] by (auto simp: find_str_def)








lemma strip_fixed:
  assumes "y \<noteq> []" "\<not> is_space (hd y)" "\<not> is_space (last y)"
  shows "strip y = y"
proof -
  have "lstrip y = y" using assms(1,2) by (cases y) (simp_all add: lstrip_def)
  moreover have "rstrip y = y" using assms(1,3)
    by (cases "rev y") (auto simp: rstrip_def last_rev hd_rev)
  ultimately show ?thesis by (simp add: strip_def)
qed


section \<open>The reference mappings of the author canonicalizer\<close>

text \<open>C7: \<open>canonicalize_author\<close> reproduces the four reference mappings of its docstring:
  the empty string stays empty, "Bryan Kyle" becomes "Kyle, Bryan", and "Bryan Kyle et all"
  with or without a final period becomes "Kyle, Bryan et all".\<close>

theorem canonicalize_author_reference_mappings:
  "canonicalize_author [] = Inr []
   \<and> canonicalize_author ''Bryan Kyle'' = Inr ''Kyle, Bryan''
   \<and> canonicalize_author ''Bryan Kyle et all'' = Inr ''Kyle, Bryan et all''
   \<and> canonicalize_author ''Bryan Kyle et all.'' = Inr ''Kyle, Bryan et all''"
  by code_simp

section \<open>Inputs that become empty while they are processed\<close>

text \<open>C1: both canonicalizers are said to return a result for every input, in particular
  for "." and "et all" (author) and for the string that is one double quote (title).  The
  code returns for "et all", but the second \<open>value[-1]\<close> of \<open>canonicalize_author\<close> raises
  IndexError on ".", and the \<open>value[-1]\<close> of \<open>canonicalize_title\<close> raises IndexError on the
  single double quote.\<close>

theorem canonicalizers_raise_on_emptied_input:
  "canonicalize_author ''.'' = Inl IndexError
   \<and> canonicalize_title [CHR 0x22] = Inl IndexError
   \<and> canonicalize_author ''et all'' = Inr '' et all''"
  by code_simp

text \<open>These two inputs are the only ones on which the canonicalizers raise.\<close>

lemma canonicalize_title_returns:
  "v \<noteq> [CHR 0x22] \<Longrightarrow> \<exists>r. canonicalize_title v = Inr r"
  by (cases v) (auto simp: canonicalize_title_def first_char_def last_char_def Let_def)

lemma single_period:
  "v \<noteq> [] \<Longrightarrow> last v = CHR ''.'' \<Longrightarrow> length v \<le> 1 \<Longrightarrow> v = ''.''"
proof -
  assume a: "v \<noteq> []" "last v = CHR ''.''" "length v \<le> 1"
  then obtain c where "v = [c]" by (cases v) auto
  with a(2) show ?thesis by simp
qed

lemma first_last_nonempty: "v \<noteq> [] \<Longrightarrow> first_last v \<noteq> []"
  by (auto simp: first_last_def Let_def)

lemma canonicalize_author_returns:
  assumes "v \<noteq> ''.''"
  shows "\<exists>r. canonicalize_author v = Inr r"
proof (cases "v = []")
  case True
  then show ?thesis by (simp add: canonicalize_author_def)
next
  case False
  define v1 where "v1 = (if last v = CHR ''.'' then take (length v - 1) v else v)"
  have stp: "strip_trailing_period v = Inr v1"
    using False by (simp add: strip_trailing_period_def last_char_def v1_def)
  have v1ne: "v1 \<noteq> []"
  proof
    assume e: "v1 = []"
    with False have "last v = CHR ''.''" "length v \<le> 1" by (auto simp: v1_def split: if_splits)
    with False have "v = ''.''" by (intro single_period)
    with assms show False by simp
  qed
  obtain v2 e where cut: "strip_et_all v1 = (v2, e)" by (cases "strip_et_all v1")
  have "move_et_all (first_last v2) e \<noteq> []"
  proof (cases "e = []")
    case True
    with cut have "v2 = v1" by (auto simp: strip_et_all_def Let_def split: if_splits)
    with True v1ne show ?thesis by (simp add: move_et_all_def first_last_nonempty)
  next
    case False
    then show ?thesis by (simp add: move_et_all_def)
  qed
  then have "\<exists>r. strip_trailing_period (move_et_all (first_last v2) e) = Inr r"
    by (simp add: strip_trailing_period_def last_char_def)
  with False stp cut show ?thesis by (simp add: canonicalize_author_def)
qed

text \<open>C2: \<open>canonicalize_title\<close> is said to turn the string that is one double quote into
  the empty string, both checks firing.  In the code the first check fires and leaves the
  empty string, on which the second check raises IndexError.\<close>

theorem canonicalize_title_single_quote:
  "canonicalize_title [CHR 0x22] = Inl IndexError"
  by code_simp

text \<open>On every other input the code does what the specification says: at most one leading
  and then at most one trailing double quote are removed.\<close>

lemma canonicalize_title_refines:
  "v \<noteq> [CHR 0x22] \<Longrightarrow> canonicalize_title v = Inr (title_spec v)"
  by (cases v)
    (auto simp: canonicalize_title_def title_spec_def first_char_def last_char_def Let_def
      butlast_conv_take)

section \<open>The marker "et all"\<close>

lemma marker_before_period:
  assumes "sublist ''et all'' (lower v)" "v \<noteq> []" "last v = CHR ''.''"
  shows "sublist ''et all'' (lower (take (length v - 1) v))"
proof -
  have v: "v = butlast v @ [CHR ''.'']" using assms(2,3) by (metis append_butlast_last_id)
  have "lower v = lower (butlast v) @ [CHR ''.'']"
    by (subst v) (simp add: lower_def lower_char_def)
  with assms(1) have "suffix ''et all'' (lower (butlast v) @ [CHR ''.''])
      \<or> sublist ''et all'' (lower (butlast v))"
    by (simp add: sublist_snoc)
  moreover have "\<not> suffix ''et all'' (lower (butlast v) @ [CHR ''.''])"
    by (auto simp: suffix_def dest!: arg_cong[where f = last])
  ultimately show ?thesis by (simp add: butlast_conv_take)
qed

lemma strip_trailing_period_marker:
  "strip_trailing_period (w @ '' et all'') = Inr (w @ '' et all'')"
  by (simp add: strip_trailing_period_def last_char_def)

lemma strip_et_all_found:
  "sublist ''et all'' (lower v) \<Longrightarrow> snd (strip_et_all v) = ''et all''"
  using find_str_found[of "lower v" "''et all''"] by (simp add: strip_et_all_def Let_def)

text \<open>C10: the marker is looked for in the lowered value and put back as the lower-case
  literal: whenever the marker occurs in the input in any casing, in particular when it
  occurs only in a casing that is not lower case, \<open>canonicalize_author\<close> returns a string
  that ends with " et all" in lower case.\<close>

theorem et_all_reappended_lowercase:
  assumes "find_str (lower v) ''et all'' > - 1"
  shows "\<exists>r. canonicalize_author v = Inr (r @ '' et all'')"
proof -
  from assms have sub: "sublist ''et all'' (lower v)" by (simp add: find_str_found)
  then have ne: "v \<noteq> []" by (auto simp: lower_def)
  define v1 where "v1 = (if last v = CHR ''.'' then take (length v - 1) v else v)"
  have stp: "strip_trailing_period v = Inr v1"
    using ne by (simp add: strip_trailing_period_def last_char_def v1_def)
  have "sublist ''et all'' (lower v1)"
    using sub ne marker_before_period[of v] by (simp add: v1_def)
  then have e: "snd (strip_et_all v1) = ''et all''" by (rule strip_et_all_found)
  obtain v2 where v2: "strip_et_all v1 = (v2, ''et all'')"
    using e by (cases "strip_et_all v1") simp
  have "canonicalize_author v = Inr (strip (first_last v2) @ '' et all'')"
    using ne stp v2
    by (simp add: canonicalize_author_def move_et_all_def strip_trailing_period_marker)
  then show ?thesis by blast
qed

theorem et_all_reappended_lowercase_witness:
  "find_str ''Bryan Kyle Et All'' ''et all'' = - 1
   \<and> find_str (lower ''Bryan Kyle Et All'') ''et all'' > - 1
   \<and> canonicalize_author ''Bryan Kyle Et All'' = Inr ''Kyle, Bryan et all''
   \<and> (\<exists>r. canonicalize_author ''Bryan Kyle Et All'' = Inr (r @ '' et all''))"
proof -
  have n: "find_str ''Bryan Kyle Et All'' ''et all'' = - 1" by code_simp
  have h: "find_str (lower ''Bryan Kyle Et All'') ''et all'' > - 1" by code_simp
  have c: "canonicalize_author ''Bryan Kyle Et All'' = Inr ''Kyle, Bryan et all''" by code_simp
  from et_all_reappended_lowercase[OF h] n h c show ?thesis by blast
qed

section \<open>Applying the author canonicalizer twice\<close>












section \<open>The full-template scenario\<close>

lemma scenario_start:
  "run [] = Inr (ShowInputPanel ''Author (Last, First)'' TEMPLATE ''author'')"
  by code_simp

lemma scenario_author:
  "get_next_input_or_insert TEMPLATE (Some ''author'') (Some ''Bryan Kyle'')
   = Inr (ShowInputPanel ''Title'' ''Kyle, Bryan. <title> <pubdate> <ref>'' ''title'')"
  by code_simp

lemma scenario_title:
  "get_next_input_or_insert ''Kyle, Bryan. <title> <pubdate> <ref>''
     (Some ''title'') (Some ([CHR 0x22] @ ''Test'' @ [CHR 0x22]))
   = Inr (ShowInputPanel ''Publication Date (DD MMM YYYY)''
       (''Kyle, Bryan. '' @ [CHR 0x22] @ ''Test'' @ [CHR 0x22] @ '' <pubdate> <ref>'')
       ''pubdate'')"
  by code_simp

lemma scenario_pubdate:
  "get_next_input_or_insert
     (''Kyle, Bryan. '' @ [CHR 0x22] @ ''Test'' @ [CHR 0x22] @ '' <pubdate> <ref>'')
     (Some ''pubdate'') (Some ''01 Jan 2020'')
   = Inr (ShowInputPanel ''Reference''
       (''Kyle, Bryan. '' @ [CHR 0x22] @ ''Test'' @ [CHR 0x22] @ '' 01 Jan 2020. <ref>'')
       ''ref'')"
  by code_simp

lemma scenario_ref:
  "get_next_input_or_insert
     (''Kyle, Bryan. '' @ [CHR 0x22] @ ''Test'' @ [CHR 0x22] @ '' 01 Jan 2020. <ref>'')
     (Some ''ref'') (Some ''http://example.com'')
   = Inr (Insert
       (''Kyle, Bryan. '' @ [CHR 0x22] @ ''Test'' @ [CHR 0x22]
        @ '' 01 Jan 2020. <<http://example.com>>''))"
  by code_simp

text \<open>C6: starting from the raw template without a selection, the command asks for author,
  title, pubdate and ref in this order, and the answers "Bryan Kyle", "Test" in double
  quotes, "01 Jan 2020" and "http://example.com" give the final entry
  "Kyle, Bryan.", then "Test" in double quotes, then "01 Jan 2020. <<http://example.com>>",
  separated by single spaces.\<close>

theorem full_template_scenario:
  "run [] = Inr (ShowInputPanel ''Author (Last, First)'' TEMPLATE ''author'')
   \<and> on_done (run []) ''Bryan Kyle''
       = Inr (ShowInputPanel ''Title'' ''Kyle, Bryan. <title> <pubdate> <ref>'' ''title'')
   \<and> on_done (on_done (run []) ''Bryan Kyle'') ([CHR 0x22] @ ''Test'' @ [CHR 0x22])
       = Inr (ShowInputPanel ''Publication Date (DD MMM YYYY)''
           (''Kyle, Bryan. '' @ [CHR 0x22] @ ''Test'' @ [CHR 0x22] @ '' <pubdate> <ref>'')
           ''pubdate'')
   \<and> on_done (on_done (on_done (run []) ''Bryan Kyle'') ([CHR 0x22] @ ''Test'' @ [CHR 0x22]))
         ''01 Jan 2020''
       = Inr (ShowInputPanel ''Reference''
           (''Kyle, Bryan. '' @ [CHR 0x22] @ ''Test'' @ [CHR 0x22] @ '' 01 Jan 2020. <ref>'')
           ''ref'')
   \<and> on_done (on_done (on_done (on_done (run []) ''Bryan Kyle'')
         ([CHR 0x22] @ ''Test'' @ [CHR 0x22])) ''01 Jan 2020'') ''http://example.com''
       = Inr (Insert
           (''Kyle, Bryan. '' @ [CHR 0x22] @ ''Test'' @ [CHR 0x22]
            @ '' 01 Jan 2020. <<http://example.com>>''))"
  by (simp only: scenario_start scenario_author scenario_title scenario_pubdate scenario_ref
        on_done.simps simp_thms)

section \<open>Failures of the substitution step\<close>

lemma unknown_name_KeyError:
  "VARS n = None \<Longrightarrow> get_next_input_or_insert entry (Some n) text = Inl KeyError"
  by (simp add: get_next_input_or_insert_def substitute_def wrap_def)

lemma VARS_names: "dom VARS = {''author'', ''title'', ''pubdate'', ''ref''}"
  by (auto simp: VARS_def split: if_splits)

text \<open>C9: an unknown name is said to fail and none of the four registered names to fail,
  whatever the value.  The first half holds (\<open>unknown_name_KeyError\<close>).  The second half
  fails in the code: the author "." and the title that is one double quote raise
  IndexError in their canonicalizer, and the pubdate made of a backslash and the digit 9
  makes \<open>re.sub\<close> reject its replacement template ("invalid group reference").\<close>

theorem registered_names_can_fail:
  "get_next_input_or_insert TEMPLATE (Some ''author'') (Some ''.'') = Inl IndexError
   \<and> get_next_input_or_insert TEMPLATE (Some ''title'') (Some [CHR 0x22]) = Inl IndexError
   \<and> get_next_input_or_insert TEMPLATE (Some ''pubdate'') (Some [CHR 0x5C, CHR ''9'']) = Inl ReError
   \<and> get_next_input_or_insert TEMPLATE (Some ''volume'') (Some ''1'') = Inl KeyError"
  by code_simp

section \<open>Values with backslashes\<close>

text \<open>C5: the wrapped value is said to be inserted character for character, also when it
  contains backslashes or group references.  The code passes the wrapped value to
  \<open>re.sub\<close> as the replacement template: for the pubdate made of a, backslash, n, b the
  entry receives a, line feed, b in place of the four characters, for the pubdate made
  of backslash and 1 the step fails with "invalid group reference", and the pubdate
  \<open>\g<0>\<close> puts the placeholder back.\<close>

theorem backslash_value_not_literal:
  "get_next_input_or_insert TEMPLATE (Some ''pubdate'') (Some [CHR ''a'', CHR 0x5C, CHR ''n'', CHR ''b''])
     = Inr (ShowInputPanel ''Author (Last, First)''
         (''<author> <title> a'' @ [CHR 0x0A] @ ''b. <ref>'') ''author'')
   \<and> get_next_input_or_insert TEMPLATE (Some ''pubdate'') (Some [CHR 0x5C, CHR ''1''])
     = Inl ReError
   \<and> get_next_input_or_insert TEMPLATE (Some ''pubdate'') (Some (CHR 0x5C # ''g<0>''))
     = Inr (ShowInputPanel ''Author (Last, First)''
         ''<author> <title> <pubdate>. <ref>'' ''author'')"
  by code_simp

section \<open>The replacement loop\<close>

lemma sub_loop_copy:
  "CHR ''<'' \<notin> set a \<Longrightarrow> sub_loop (CHR ''<'' # q) r (a @ x) = a @ sub_loop (CHR ''<'' # q) r x"
  by (induction a) auto

lemma sub_loop_none: "\<not> sublist p x \<Longrightarrow> sub_loop p r x = x"
  by (induction x) (auto simp: sublist_Cons_right)

lemma sub_loop_match: "p \<noteq> [] \<Longrightarrow> sub_loop p r (p @ x) = r @ sub_loop p r x"
  by (cases p) auto

lemma sub_loop_skip:
  "\<not> prefix p (c # cs) \<Longrightarrow> sub_loop p r (c # cs) = c # sub_loop p r cs"
  by simp

lemma sub_loop_hit:
  "p \<noteq> [] \<Longrightarrow> prefix p (c # cs) \<Longrightarrow>
     sub_loop p r (c # cs) = r @ sub_loop p r (drop (length p) (c # cs))"
  by simp

lemma re_sub_plain: "CHR 0x5C \<notin> set r \<Longrightarrow> re_sub p r e = Inr (sub_loop p r e)"
  by (simp add: re_sub_def)

lemma match_var_Some:
  "match_var s = Some m \<Longrightarrow>
     m \<in> {''author'', ''title'', ''pubdate'', ''ref''} \<and> prefix (CHR ''<'' # m @ ''>'') s"
  unfolding match_var_def by (auto simp: find_Some_iff nth_Cons' split: if_splits)

lemma names_plain:
  "m \<in> {''author'', ''title'', ''pubdate'', ''ref''} \<Longrightarrow> CHR ''<'' \<notin> set m \<and> CHR ''>'' \<notin> set m"
  by auto


lemma findall_vars_names:
  "set (findall_vars s) \<subseteq> {''author'', ''title'', ''pubdate'', ''ref''}"
proof (induction s rule: findall_vars.induct)
  case 1
  then show ?case by simp
next
  case (2 c cs)
  show ?case
  proof (cases "match_var (c # cs)")
    case None
    with 2(1)[OF None] show ?thesis by simp
  next
    case (Some n)
    with 2(2)[OF Some] match_var_Some[OF Some] show ?thesis by simp
  qed
qed

lemma wf_entry_drop: "wf_entry e \<Longrightarrow> wf_entry (drop k e)"
proof (induction e arbitrary: k)
  case Nil
  then show ?case by simp
next
  case (Cons c e)
  then show ?case by (cases k) auto
qed






section \<open>The step on values without backslash\<close>

lemma wrap_names:
  "wrap n text = Inr r \<Longrightarrow> n \<in> {''author'', ''title'', ''pubdate'', ''ref''}"
  using VARS_names by (auto simp: wrap_def split: option.splits)



text \<open>The step returns an action whenever the substitution returns an entry: the names
  that \<open>findall_vars\<close> finds are keys of \<open>VARS\<close>.\<close>

lemma step_entry:
  assumes "substitute e n t = Inr e'"
  shows "\<exists>a. get_next_input_or_insert e (Some n) (Some t) = Inr a \<and> entry_of a = e'"
proof (cases "findall_vars e'")
  case Nil
  with assms show ?thesis by (simp add: get_next_input_or_insert_def)
next
  case (Cons m ms)
  with findall_vars_names[of e'] have "m \<in> dom VARS" unfolding VARS_names by auto
  then obtain v where "VARS m = Some v" by auto
  with assms Cons show ?thesis by (simp add: get_next_input_or_insert_def)
qed

text \<open>A wrapped value without backslash is inserted as it is.\<close>

lemma substitute_plain:
  "wrap n text = Inr r \<Longrightarrow> CHR 0x5C \<notin> set r \<Longrightarrow>
     substitute entry n text = Inr (strip (sub_loop (CHR ''<'' # n @ ''>'') r entry))"
  by (simp add: substitute_def re_sub_plain ok_map_def)

section \<open>An empty publication date\<close>

text \<open>C3, as stated: after the empty string has been supplied for pubdate the final entry
  holds no double space.  In the scenario of the full template with an empty pubdate, the
  placeholder is removed, the spaces on its two sides stay, and the entry that is
  inserted holds them.\<close>

theorem empty_pubdate_counterexample:
  "on_done (on_done (on_done (run []) ''Bryan Kyle'') ([CHR 0x22] @ ''Test'' @ [CHR 0x22])) []
     = Inr (ShowInputPanel ''Reference''
         (''Kyle, Bryan. '' @ [CHR 0x22] @ ''Test'' @ [CHR 0x22] @ ''  <ref>'') ''ref'')
   \<and> on_done (on_done (on_done (on_done (run []) ''Bryan Kyle'')
         ([CHR 0x22] @ ''Test'' @ [CHR 0x22])) []) ''http://example.com''
     = Inr (Insert
         (''Kyle, Bryan. '' @ [CHR 0x22] @ ''Test'' @ [CHR 0x22] @ ''  <<http://example.com>>''))
   \<and> sublist ''  ''
         (''Kyle, Bryan. '' @ [CHR 0x22] @ ''Test'' @ [CHR 0x22] @ ''  <<http://example.com>>'')"
  by code_simp

text \<open>C3, amended: when the empty string is supplied for pubdate, the placeholder is
  removed and only the white space at the two ends of the entry is trimmed.  For an
  entry made of a text without \<open><\<close>, a space, the placeholder, a space and a text without
  the placeholder, the two texts not empty and without white space at the outer ends, the
  new entry is the first text, two spaces and the second text: the segment is absent
  and both spaces that surrounded it stay.\<close>

theorem empty_pubdate_keeps_both_spaces:
  assumes pre: "CHR ''<'' \<notin> set pre" "pre \<noteq> []" "\<not> is_space (hd pre)"
    and post: "\<not> sublist ''<pubdate>'' post" "post \<noteq> []" "\<not> is_space (last post)"
  shows "\<exists>a. get_next_input_or_insert (pre @ '' <pubdate> '' @ post) (Some ''pubdate'') (Some [])
               = Inr a
             \<and> entry_of a = pre @ ''  '' @ post"
proof -
  let ?p = "''<pubdate>''"
  have w: "wrap ''pubdate'' [] = Inr []" by (simp add: wrap_def VARS_def)
  have "sub_loop ?p [] (pre @ '' <pubdate> '' @ post)
        = (pre @ '' '') @ sub_loop ?p [] (?p @ '' '' @ post)"
    using pre(1) sub_loop_copy[of "pre @ '' ''" "''pubdate>''" "[]" "?p @ '' '' @ post"] by simp
  also have "sub_loop ?p [] (?p @ '' '' @ post) = sub_loop ?p [] ('' '' @ post)"
    using sub_loop_match[of ?p "[]" "'' '' @ post"] by simp
  also have "\<dots> = '' '' @ sub_loop ?p [] post"
    using sub_loop_copy[of "'' ''" "''pubdate>''" "[]" post] by simp
  also have "sub_loop ?p [] post = post" using post(1) by (rule sub_loop_none)
  finally have l: "sub_loop ?p [] (pre @ '' <pubdate> '' @ post) = pre @ ''  '' @ post" by simp
  have "strip (pre @ ''  '' @ post) = pre @ ''  '' @ post"
    using pre(2,3) post(2,3) by (intro strip_fixed) (simp_all add: hd_append)
  with l have "substitute (pre @ '' <pubdate> '' @ post) ''pubdate'' [] = Inr (pre @ ''  '' @ post)"
    using w by (simp add: substitute_def re_sub_plain ok_map_def)
  from step_entry[OF this] show ?thesis .
qed

theorem empty_pubdate_keeps_both_spaces_witness:
  "CHR ''<'' \<notin> set ''Kyle, Bryan.'' \<and> ''Kyle, Bryan.'' \<noteq> [] \<and> \<not> is_space (hd ''Kyle, Bryan.'')
   \<and> \<not> sublist ''<pubdate>'' ''<ref>'' \<and> ''<ref>'' \<noteq> [] \<and> \<not> is_space (last ''<ref>'')
   \<and> get_next_input_or_insert ''Kyle, Bryan. <pubdate> <ref>'' (Some ''pubdate'') (Some [])
       = Inr (ShowInputPanel ''Reference'' ''Kyle, Bryan.  <ref>'' ''ref'')
   \<and> (\<exists>a. get_next_input_or_insert ''Kyle, Bryan. <pubdate> <ref>'' (Some ''pubdate'') (Some [])
             = Inr a
           \<and> entry_of a = ''Kyle, Bryan.  <ref>'')"
proof -
  have a: "CHR ''<'' \<notin> set ''Kyle, Bryan.''" by simp
  have b: "''Kyle, Bryan.'' \<noteq> []" by simp
  have c: "\<not> is_space (hd ''Kyle, Bryan.'')" by (simp add: is_space_def)
  have d: "\<not> sublist ''<pubdate>'' ''<ref>''" by code_simp
  have e: "''<ref>'' \<noteq> []" by simp
  have f: "\<not> is_space (last ''<ref>'')" by (simp add: is_space_def)
  have g: "get_next_input_or_insert ''Kyle, Bryan. <pubdate> <ref>'' (Some ''pubdate'') (Some [])
       = Inr (ShowInputPanel ''Reference'' ''Kyle, Bryan.  <ref>'' ''ref'')"
    by code_simp
  from empty_pubdate_keeps_both_spaces[OF a b c d e f]
  have "\<exists>a. get_next_input_or_insert ''Kyle, Bryan. <pubdate> <ref>'' (Some ''pubdate'') (Some [])
             = Inr a
           \<and> entry_of a = ''Kyle, Bryan.  <ref>''"
    by simp
  with a b c d e f g show ?thesis by blast
qed

section \<open>Entries in which every \<open><\<close> begins a placeholder\<close>

lemma match_var_prefix:
  "m \<in> {''author'', ''title'', ''pubdate'', ''ref''} \<Longrightarrow> prefix (CHR ''<'' # m @ ''>'') s
     \<Longrightarrow> match_var s \<noteq> None"
  unfolding match_var_def by (auto simp: find_None_iff)

lemma wf_entry_append_plain: "CHR ''<'' \<notin> set a \<Longrightarrow> wf_entry x \<Longrightarrow> wf_entry (a @ x)"
  by (induction a) auto

lemma wf_entry_sub_loop:
  assumes n: "n \<in> {''author'', ''title'', ''pubdate'', ''ref''}"
    and r: "CHR ''<'' \<notin> set r"
  shows "wf_entry e \<Longrightarrow> wf_entry (sub_loop (CHR ''<'' # n @ ''>'') r e)"
proof (induction e rule: length_induct)
  case (1 e)
  let ?p = "CHR ''<'' # n @ ''>''"
  show ?case
  proof (cases e)
    case Nil
    then show ?thesis by simp
  next
    case (Cons c cs)
    note wf = "1.prems"[unfolded Cons]
    note IH = "1.IH"[unfolded Cons]
    have "wf_entry (sub_loop ?p r (c # cs))"
    proof (cases "prefix ?p (c # cs)")
      case True
      have "wf_entry (drop (length ?p) (c # cs))" using wf by (rule wf_entry_drop)
      moreover have "length (drop (length ?p) (c # cs)) < length (c # cs)" by simp
      ultimately have "wf_entry (sub_loop ?p r (drop (length ?p) (c # cs)))"
        using IH by blast
      with r have x: "wf_entry (r @ sub_loop ?p r (drop (length ?p) (c # cs)))"
        by (rule wf_entry_append_plain)
      have hit: "sub_loop ?p r (c # cs) = r @ sub_loop ?p r (drop (length ?p) (c # cs))"
        using True by (intro sub_loop_hit) simp_all
      show ?thesis unfolding hit by (rule x)
    next
      case False
      from wf have "wf_entry cs" by simp
      with IH have ih: "wf_entry (sub_loop ?p r cs)" by simp
      have eq: "sub_loop ?p r (c # cs) = c # sub_loop ?p r cs"
        using False by (rule sub_loop_skip)
      have "match_var (c # sub_loop ?p r cs) \<noteq> None" if c: "c = CHR ''<''"
      proof -
        from c wf obtain m where m: "match_var (c # cs) = Some m" by auto
        from match_var_Some[OF m] have mn: "m \<in> {''author'', ''title'', ''pubdate'', ''ref''}"
          and pm: "prefix (CHR ''<'' # m @ ''>'') (c # cs)" by simp_all
        from pm obtain rest where cs: "cs = (m @ ''>'') @ rest" by (auto simp: prefix_def)
        have "CHR ''<'' \<notin> set (m @ ''>'')" using names_plain[OF mn] by simp
        then have "sub_loop ?p r cs = (m @ ''>'') @ sub_loop ?p r rest"
          unfolding cs by (rule sub_loop_copy)
        with c have "prefix (CHR ''<'' # m @ ''>'') (c # sub_loop ?p r cs)" by simp
        with mn show ?thesis by (rule match_var_prefix)
      qed
      with ih have "wf_entry (c # sub_loop ?p r cs)" by simp
      then show ?thesis unfolding eq .
    qed
    then show ?thesis unfolding Cons .
  qed
qed

lemma prefix_before_spaces:
  assumes "prefix t (a @ ws)" "\<forall>c\<in>set ws. is_space c" "\<forall>c\<in>set t. \<not> is_space c"
  shows "prefix t a"
proof -
  from assms(1) consider "prefix t a" | us where "t = a @ us" "prefix us ws"
    by (auto simp: prefix_append)
  then show ?thesis
  proof cases
    case 1
    then show ?thesis .
  next
    case 2
    have "us = []"
    proof (rule ccontr)
      assume "us \<noteq> []"
      then obtain u us' where u: "us = u # us'" by (cases us) auto
      with 2(2) have "u \<in> set ws" by (auto simp: prefix_def)
      moreover from u 2(1) have "u \<in> set t" by simp
      ultimately show False using assms(2,3) by blast
    qed
    with 2(1) show ?thesis by simp
  qed
qed

lemma names_no_space:
  "m \<in> {''author'', ''title'', ''pubdate'', ''ref''} \<Longrightarrow> \<forall>c\<in>set (CHR ''<'' # m @ ''>''). \<not> is_space c"
  by (auto simp: is_space_def)

lemma wf_entry_before_spaces:
  "wf_entry (xs @ ws) \<Longrightarrow> \<forall>c\<in>set ws. is_space c \<Longrightarrow> wf_entry xs"
proof (induction xs)
  case Nil
  then show ?case by simp
next
  case (Cons c xs)
  from Cons have tl: "wf_entry xs" by simp
  have "match_var (c # xs) \<noteq> None" if c: "c = CHR ''<''"
  proof -
    from c Cons.prems(1) obtain m where m: "match_var (c # xs @ ws) = Some m" by auto
    from match_var_Some[OF m] have mn: "m \<in> {''author'', ''title'', ''pubdate'', ''ref''}"
      and pm: "prefix (CHR ''<'' # m @ ''>'') ((c # xs) @ ws)" by simp_all
    from pm Cons.prems(2) names_no_space[OF mn] have "prefix (CHR ''<'' # m @ ''>'') (c # xs)"
      by (rule prefix_before_spaces)
    with mn show ?thesis by (rule match_var_prefix)
  qed
  with tl show ?case by simp
qed

lemma wf_entry_strip: "wf_entry x \<Longrightarrow> wf_entry (strip x)"
proof -
  assume wf: "wf_entry x"
  have "lstrip x = drop (length (takeWhile is_space x)) x"
    by (simp add: lstrip_def dropWhile_eq_drop)
  with wf have l: "wf_entry (lstrip x)" by (simp add: wf_entry_drop)
  let ?l = "lstrip x"
  have "?l = rstrip ?l @ rev (takeWhile is_space (rev ?l))"
    unfolding rstrip_def by (metis rev_append rev_rev_ident takeWhile_dropWhile_id)
  moreover have "\<forall>c\<in>set (rev (takeWhile is_space (rev ?l))). is_space c"
    by (auto dest: set_takeWhileD)
  ultimately have "wf_entry (rstrip ?l)" using l wf_entry_before_spaces by metis
  then show ?thesis by (simp add: strip_def)
qed

text \<open>The raw template is such an entry, and a step whose wrapped value holds neither
  \<open><\<close> nor a backslash returns such an entry again.\<close>

lemma wf_entry_TEMPLATE: "wf_entry TEMPLATE"
  by code_simp

lemma wf_entry_step:
  assumes "wf_entry entry" "wrap n text = Inr r" "CHR 0x5C \<notin> set r" "CHR ''<'' \<notin> set r"
  shows "\<exists>a. get_next_input_or_insert entry (Some n) (Some text) = Inr a \<and> wf_entry (entry_of a)"
proof -
  let ?p = "CHR ''<'' # n @ ''>''"
  have s: "substitute entry n text = Inr (strip (sub_loop ?p r entry))"
    using assms(2,3) by (rule substitute_plain)
  have "wf_entry (sub_loop ?p r entry)"
    using wrap_names[OF assms(2)] assms(4,1) by (rule wf_entry_sub_loop)
  then have "wf_entry (strip (sub_loop ?p r entry))" by (rule wf_entry_strip)
  with step_entry[OF s] show ?thesis by auto
qed


section \<open>A substituted placeholder\<close>




end
